theory Spec2Isabelle
  imports Complex_Main
begin

section \<open>JavaScript numbers\<close>

text \<open>
  The layout arithmetic of \<^verbatim>\<open>handleMerge\<close> runs on JavaScript numbers, the doubles
  of IEEE 754. A number is a finite double, given by its value, or one of the three
  special values. Every operation gives the double that is nearest to the exact result,
  the even one of two that are equally near, and an infinity beyond the range of the
  doubles. Division by zero and the arithmetic of the special values follow the
  language: \<^verbatim>\<open>780 / 0\<close> is \<^verbatim>\<open>Infinity\<close>, \<^verbatim>\<open>0 * Infinity\<close> is \<^verbatim>\<open>NaN\<close>. The sign of zero
  is not modelled.
\<close>

datatype number = Fin rat | PosInf | NegInf | NaN

text \<open>The number of binary digits of \<open>n\<close>.\<close>

fun bits :: "nat \<Rightarrow> nat" where
  "bits n = (if n = 0 then 0 else Suc (bits (n div 2)))"

declare bits.simps [simp del]

definition pow2 :: "int \<Rightarrow> rat" where
  "pow2 p = (if 0 \<le> p then 2 ^ nat p else 1 / 2 ^ nat (- p))"

text \<open>For a positive \<open>a\<close>, the exponent \<open>e\<close> with \<open>2 ^ e \<le> a < 2 ^ (e + 1)\<close>.\<close>

definition ilog2 :: "rat \<Rightarrow> int" where
  "ilog2 a =
     (if 1 \<le> a then int (bits (nat \<lfloor>a\<rfloor>)) - 1
      else if a * pow2 (int (bits (nat \<lfloor>1 / a\<rfloor>)) - 1) = 1
      then 1 - int (bits (nat \<lfloor>1 / a\<rfloor>))
      else - int (bits (nat \<lfloor>1 / a\<rfloor>)))"

text \<open>The nearest integer, the even one of two that are equally near.\<close>

definition roundHalfEven :: "rat \<Rightarrow> int" where
  "roundHalfEven x =
     (if x - of_int \<lfloor>x\<rfloor> < 1 / 2 then \<lfloor>x\<rfloor>
      else if 1 / 2 < x - of_int \<lfloor>x\<rfloor> then \<lfloor>x\<rfloor> + 1
      else if even \<lfloor>x\<rfloor> then \<lfloor>x\<rfloor> else \<lfloor>x\<rfloor> + 1)"

text \<open>
  The exponent of the last binary digit a double near \<open>a\<close> has: 53 digits from the
  leading one, and never below the exponent of the subnormal doubles.
\<close>

definition quantum :: "rat \<Rightarrow> int" where
  "quantum a = max (ilog2 a - 52) (- 1074)"

definition nearest :: "rat \<Rightarrow> rat" where
  "nearest a = of_int (roundHalfEven (a / pow2 (quantum a))) * pow2 (quantum a)"

text \<open>The double for the exact result \<open>q\<close> of an operation.\<close>

definition double :: "rat \<Rightarrow> number" where
  "double q =
     (if q = 0 then Fin 0
      else if 2 ^ 1024 \<le> nearest \<bar>q\<bar> then (if 0 < q then PosInf else NegInf)
      else Fin (if 0 < q then nearest \<bar>q\<bar> else - nearest \<bar>q\<bar>))"

definition num_of_int :: "int \<Rightarrow> number" where
  "num_of_int i = double (of_int i)"

definition num_of_nat :: "nat \<Rightarrow> number" where
  "num_of_nat n = double (of_nat n)"

text \<open>The operator \<^verbatim>\<open>/\<close>.\<close>

fun num_div :: "number \<Rightarrow> number \<Rightarrow> number" where
  "num_div NaN y = NaN"
| "num_div x NaN = NaN"
| "num_div (Fin a) (Fin b) =
     (if b = 0 then (if a = 0 then NaN else if 0 < a then PosInf else NegInf)
      else double (a / b))"
| "num_div (Fin a) PosInf = Fin 0"
| "num_div (Fin a) NegInf = Fin 0"
| "num_div PosInf (Fin b) = (if b < 0 then NegInf else PosInf)"
| "num_div NegInf (Fin b) = (if b < 0 then PosInf else NegInf)"
| "num_div PosInf PosInf = NaN"
| "num_div PosInf NegInf = NaN"
| "num_div NegInf PosInf = NaN"
| "num_div NegInf NegInf = NaN"

text \<open>The operator \<^verbatim>\<open>*\<close>.\<close>

fun num_mul :: "number \<Rightarrow> number \<Rightarrow> number" where
  "num_mul NaN y = NaN"
| "num_mul x NaN = NaN"
| "num_mul (Fin a) (Fin b) = double (a * b)"
| "num_mul (Fin a) PosInf = (if a = 0 then NaN else if 0 < a then PosInf else NegInf)"
| "num_mul (Fin a) NegInf = (if a = 0 then NaN else if 0 < a then NegInf else PosInf)"
| "num_mul PosInf (Fin b) = (if b = 0 then NaN else if 0 < b then PosInf else NegInf)"
| "num_mul NegInf (Fin b) = (if b = 0 then NaN else if 0 < b then NegInf else PosInf)"
| "num_mul PosInf PosInf = PosInf"
| "num_mul PosInf NegInf = NegInf"
| "num_mul NegInf PosInf = NegInf"
| "num_mul NegInf NegInf = PosInf"

text \<open>The operator \<^verbatim>\<open>+\<close> on numbers (\<^verbatim>\<open>+=\<close> in the source).\<close>

fun num_add :: "number \<Rightarrow> number \<Rightarrow> number" where
  "num_add NaN y = NaN"
| "num_add x NaN = NaN"
| "num_add (Fin a) (Fin b) = double (a + b)"
| "num_add (Fin a) PosInf = PosInf"
| "num_add (Fin a) NegInf = NegInf"
| "num_add PosInf (Fin b) = PosInf"
| "num_add NegInf (Fin b) = NegInf"
| "num_add PosInf PosInf = PosInf"
| "num_add NegInf NegInf = NegInf"
| "num_add PosInf NegInf = NaN"
| "num_add NegInf PosInf = NaN"

text \<open>
  The sum of a sequence of numbers taken in sequence order, starting from zero: what a
  loop \<^verbatim>\<open>let t = 0; xs.forEach(x => t += x)\<close> leaves in \<^verbatim>\<open>t\<close>.
\<close>

definition num_sum :: "number list \<Rightarrow> number" where
  "num_sum xs = foldl num_add (Fin 0) xs"

text \<open>
  A number assigned to an attribute of the DOM that is an \<^verbatim>\<open>unsigned long\<close>: the
  fraction is dropped (towards zero) and the rest is taken modulo \<open>2 ^ 32\<close>;
  \<^verbatim>\<open>NaN\<close> and the infinities give 0.
\<close>

definition toUnsignedLong :: "number \<Rightarrow> nat" where
  "toUnsignedLong x =
     (case x of
        Fin q \<Rightarrow> nat ((if 0 \<le> q then \<lfloor>q\<rfloor> else - \<lfloor>- q\<rfloor>) mod 2 ^ 32)
      | _ \<Rightarrow> 0)"

text \<open>
  What \<^verbatim>\<open>canvas.width\<close> or \<^verbatim>\<open>canvas.height\<close> reads after \<open>x\<close> was assigned to it. The
  attribute reflects a content attribute: a value above 2147483647 is replaced by the
  default of the attribute (300 for the width, 150 for the height).
\<close>

definition canvasDimension :: "nat \<Rightarrow> number \<Rightarrow> nat" where
  "canvasDimension dflt x =
     (if toUnsignedLong x \<le> 2147483647 then toUnsignedLong x else dflt)"

section \<open>Data\<close>

text \<open>
  A \<^verbatim>\<open>File\<close> of the browser: its name, its declared media type, its size, and its
  bytes (abstract: \<open>blob\<close> identifies the content).
\<close>

record File =
  fname :: string
  ftype :: string
  fsize :: nat
  blob :: nat

text \<open>An object URL (\<^verbatim>\<open>blob:...\<close>), identified by a serial number.\<close>

type_synonym url = nat

text \<open>
  A loaded \<^verbatim>\<open>HTMLImageElement\<close>: its \<^verbatim>\<open>src\<close> and its natural dimensions
  (unsigned integers in the DOM).
\<close>

record image =
  src :: url
  naturalWidth :: nat
  naturalHeight :: nat

datatype format = jpeg | png

text \<open>
  The four messages \<^verbatim>\<open>setError\<close> is called with, in the order of the source:
  \<^item> \<open>TooManyImages\<close>: line 31, "at most 10 images can be added";
  \<^item> \<open>NoImagesSelected\<close>: line 79, "select at least one image to merge";
  \<^item> \<open>WidthOutOfRange\<close>: line 83, "the width must be between 100px and 2000px";
  \<^item> \<open>ProcessingFailed\<close>: line 140, "an error occurred while processing the images;
    check that the file format is right".
\<close>

datatype message = TooManyImages | NoImagesSelected | WidthOutOfRange | ProcessingFailed

text \<open>
  What a merge run does to the browser and what it tells React about loading, in the
  order it happens.
  \<^item> \<open>SetIsLoading b\<close>: \<^verbatim>\<open>setIsLoading(b)\<close>;
  \<^item> \<open>LoadImage f u\<close>: \<^verbatim>\<open>img.src = URL.createObjectURL(file)\<close> on a new image, the start
    of the decoding of \<open>f\<close> under the object URL \<open>u\<close>;
  \<^item> \<open>SetCanvasSize w h\<close>: the values assigned to \<^verbatim>\<open>canvas.width\<close> and
    \<^verbatim>\<open>canvas.height\<close>;
  \<^item> \<open>FillRect x y w h\<close>: \<^verbatim>\<open>ctx.fillRect(x, y, w, h)\<close>, with the white fill style of
    line 116;
  \<^item> \<open>DrawImage img x y w h\<close>: \<^verbatim>\<open>ctx.drawImage(img, x, y, w, h)\<close>;
  \<^item> \<open>RevokeObjectURL u\<close>: \<^verbatim>\<open>URL.revokeObjectURL(u)\<close>;
  \<^item> \<open>ToDataURL mime q\<close>: \<^verbatim>\<open>canvas.toDataURL(mime, q)\<close>;
  \<^item> \<open>Download n\<close>: the click on the link whose \<^verbatim>\<open>download\<close> attribute is \<open>n\<close>.
\<close>

datatype effect =
    SetIsLoading bool
  | LoadImage File url
  | SetCanvasSize number number
  | FillRect number number number number
  | DrawImage image number number number number
  | RevokeObjectURL url
  | ToDataURL string "number option"
  | Download string

section \<open>The layout and the drawing (lines 106 to 126)\<close>

text \<open>The body of the callback of \<^verbatim>\<open>loadedImages.map\<close>, without the accumulation.\<close>

definition scaleRatio :: "int \<Rightarrow> image \<Rightarrow> number" where
  "scaleRatio outputWidth img = num_div (num_of_int outputWidth) (num_of_nat (naturalWidth img))"

definition scaledHeight :: "int \<Rightarrow> image \<Rightarrow> number" where
  "scaledHeight outputWidth img = num_mul (num_of_nat (naturalHeight img)) (scaleRatio outputWidth img)"

text \<open>
  \<^verbatim>\<open>loadedImages.map(img => { ...; totalHeight += height; return height; })\<close>: the
  heights, and \<^verbatim>\<open>totalHeight\<close> after the last image.
\<close>

fun mapHeights :: "int \<Rightarrow> image list \<Rightarrow> number \<Rightarrow> number list \<times> number" where
  "mapHeights outputWidth [] totalHeight = ([], totalHeight)"
| "mapHeights outputWidth (img # imgs) totalHeight =
     (let height = scaledHeight outputWidth img;
          (heights, totalHeight') = mapHeights outputWidth imgs (num_add totalHeight height)
      in (height # heights, totalHeight'))"

text \<open>
  \<^verbatim>\<open>scaledHeights[index]\<close>: out of range the read gives \<^verbatim>\<open>undefined\<close>, which is
  \<^verbatim>\<open>NaN\<close> as soon as it is added or drawn.
\<close>

definition heightAt :: "number list \<Rightarrow> nat \<Rightarrow> number" where
  "heightAt scaledHeights index =
     (if index < length scaledHeights then scaledHeights ! index else NaN)"

text \<open>
  \<^verbatim>\<open>loadedImages.forEach((img, index) => ...)\<close> from \<open>index\<close> on, with \<^verbatim>\<open>currentY\<close> as
  it stands: each image is drawn, then its object URL is revoked.
\<close>

fun drawImages :: "int \<Rightarrow> number list \<Rightarrow> image list \<Rightarrow> nat \<Rightarrow> number \<Rightarrow> effect list" where
  "drawImages outputWidth scaledHeights [] index currentY = []"
| "drawImages outputWidth scaledHeights (img # imgs) index currentY =
     (let height = heightAt scaledHeights index
      in DrawImage img (Fin 0) currentY (num_of_int outputWidth) height
         # RevokeObjectURL (src img)
         # drawImages outputWidth scaledHeights imgs (Suc index) (num_add currentY height))"

text \<open>
  Lines 106 to 126 as a whole. \<open>SetCanvasSize\<close> carries the two numbers the code assigns;
  the rectangle of line 117 is filled to \<^verbatim>\<open>canvas.width\<close> and \<^verbatim>\<open>canvas.height\<close> as the
  canvas gives them back.
\<close>

definition composite :: "int \<Rightarrow> image list \<Rightarrow> effect list" where
  "composite outputWidth loadedImages =
     (let (scaledHeights, totalHeight) = mapHeights outputWidth loadedImages (Fin 0);
          canvasWidth = canvasDimension 300 (num_of_int outputWidth);
          canvasHeight = canvasDimension 150 totalHeight
      in SetCanvasSize (num_of_int outputWidth) totalHeight
         # FillRect (Fin 0) (Fin 0) (num_of_nat canvasWidth) (num_of_nat canvasHeight)
         # drawImages outputWidth scaledHeights loadedImages 0 (Fin 0))"

text \<open>
  The layout as the specification words it, in the arithmetic of the doubles: image
  \<open>i\<close> of natural size \<open>(w, h)\<close> gets the height \<open>h * (W / w)\<close>, the quotient rounded
  and then the product, and is drawn at the sum of the heights before it, rounded
  after each addition. \<open>exact_height\<close> is the same formula without any rounding.
\<close>

definition exact_height :: "int \<Rightarrow> image \<Rightarrow> rat" where
  "exact_height W img = of_nat (naturalHeight img) * (of_int W / of_nat (naturalWidth img))"


definition spec_height :: "int \<Rightarrow> image \<Rightarrow> number" where
  "spec_height W img =
     num_mul (num_of_nat (naturalHeight img)) (num_div (num_of_int W) (num_of_nat (naturalWidth img)))"

definition spec_placement :: "int \<Rightarrow> image list \<Rightarrow> nat \<Rightarrow> effect list" where
  "spec_placement W imgs i =
     [DrawImage (imgs ! i) (Fin 0) (num_sum (take i (map (spec_height W) imgs)))
        (num_of_int W) (spec_height W (imgs ! i)),
      RevokeObjectURL (src (imgs ! i))]"

section \<open>The component's state\<close>

text \<open>
  The state of \<^verbatim>\<open>App\<close>: the six \<^verbatim>\<open>useState\<close> cells that matter to the working set and
  the merge, and the two drag refs. \<open>outputWidth\<close> is an integer: its only writer is
  the width input's \<^verbatim>\<open>onChange\<close>, with \<^verbatim>\<open>parseInt(e.target.value, 10) || 0\<close>. Beside them,
  what the browser keeps for the page: the object URLs that are live (created and not
  yet revoked), the serial number of the next one, and the effects so far.
\<close>

record state =
  files :: "File list"
  outputWidth :: int
  outputFormat :: format
  isLoading :: bool
  error :: "message option"
  dragItem :: "nat option"
  dragOverItem :: "nat option"
  objectURLs :: "url list"
  nextURL :: url
  effects :: "effect list"

definition initialState :: state where
  "initialState =
     \<lparr>files = [], outputWidth = 780, outputFormat = jpeg, isLoading = False, error = None,
      dragItem = None, dragOverItem = None, objectURLs = [], nextURL = 0, effects = []\<rparr>"

section \<open>The working set: addFiles, handleRemoveFile, handleDragSort\<close>

text \<open>\<^verbatim>\<open>s.startsWith(p)\<close>.\<close>

definition startsWith :: "string \<Rightarrow> string \<Rightarrow> bool" where
  "startsWith s p = (take (length p) s = p)"

text \<open>Lines 25 to 35.\<close>

definition addFiles :: "File list \<Rightarrow> state \<Rightarrow> state" where
  "addFiles newFiles s =
     (let s1 = s\<lparr>error := None\<rparr>;
          fileArray = newFiles;
          imageFiles = filter (\<lambda>file. startsWith (ftype file) ''image/'') fileArray
      in if length (files s) + length imageFiles > 10
         then s1\<lparr>error := Some TooManyImages\<rparr>
         else s1\<lparr>files := files s1 @ imageFiles\<rparr>)"

text \<open>\<^verbatim>\<open>array.filter((x, i) => p(x, i))\<close>, the index counted from \<open>i\<close>.\<close>

fun filterWithIndex :: "('a \<Rightarrow> nat \<Rightarrow> bool) \<Rightarrow> 'a list \<Rightarrow> nat \<Rightarrow> 'a list" where
  "filterWithIndex p [] i = []"
| "filterWithIndex p (x # xs) i =
     (if p x i then x # filterWithIndex p xs (Suc i) else filterWithIndex p xs (Suc i))"

text \<open>Lines 63 to 65.\<close>

definition handleRemoveFile :: "nat \<Rightarrow> state \<Rightarrow> state" where
  "handleRemoveFile index s =
     s\<lparr>files := filterWithIndex (\<lambda>_ i. i \<noteq> index) (files s) 0\<rparr>"

text \<open>
  \<^verbatim>\<open>array.splice(start, deleteCount, ...items)\<close> for a start that is not negative: the
  removed elements, and the array afterwards. A start beyond the end is the end, and no
  more is deleted than there is.
\<close>

definition splice :: "nat \<Rightarrow> nat \<Rightarrow> 'a list \<Rightarrow> 'a list \<Rightarrow> 'a list \<times> 'a list" where
  "splice start deleteCount items xs =
     (let actualStart = min start (length xs);
          actualDeleteCount = min deleteCount (length xs - actualStart)
      in (take actualDeleteCount (drop actualStart xs),
          take actualStart xs @ items @ drop (actualStart + actualDeleteCount) xs))"

text \<open>
  Lines 69 to 71 on the copy of \<^verbatim>\<open>files\<close>. When \<^verbatim>\<open>dragItem.current\<close> is not an index of
  the array, \<^verbatim>\<open>splice(...)[0]\<close> is \<^verbatim>\<open>undefined\<close> and the code stores it among the files,
  where the next render throws on it (line 17); that outcome is \<open>None\<close>.
\<close>

definition dragSort :: "nat \<Rightarrow> nat \<Rightarrow> 'a list \<Rightarrow> 'a list option" where
  "dragSort dragIndex dragOverIndex newFiles =
     (let (removed, newFiles1) = splice dragIndex 1 [] newFiles
      in case removed of
           [] \<Rightarrow> None
         | draggedItemContent # _ \<Rightarrow>
             Some (snd (splice dragOverIndex 0 [draggedItemContent] newFiles1)))"

text \<open>Lines 67 to 75.\<close>

definition handleDragSort :: "state \<Rightarrow> state option" where
  "handleDragSort s =
     (case dragItem s of
        None \<Rightarrow> Some s
      | Some dragIndex \<Rightarrow>
          (case dragOverItem s of
             None \<Rightarrow> Some s
           | Some dragOverIndex \<Rightarrow>
               (case dragSort dragIndex dragOverIndex (files s) of
                  None \<Rightarrow> None
                | Some newFiles \<Rightarrow>
                    Some (s\<lparr>dragItem := None, dragOverItem := None, files := newFiles\<rparr>))))"

text \<open>
  The move as the specification words it: remove the entry at \<open>fromIndex\<close>, then insert
  it at \<open>toIndex\<close> of the shortened sequence.
\<close>

definition spec_reorder :: "nat \<Rightarrow> nat \<Rightarrow> 'a list \<Rightarrow> 'a list" where
  "spec_reorder fromIndex toIndex xs =
     (let shortened = take fromIndex xs @ drop (Suc fromIndex) xs
      in take toIndex shortened @ [xs ! fromIndex] @ drop toIndex shortened)"

section \<open>The merge run: handleMerge\<close>

text \<open>
  What the run cannot know from the state: whether the canvas gives a 2d context, and
  for each file whether the browser decodes it (\<^verbatim>\<open>onload\<close>, with the natural width and
  height) or not (\<^verbatim>\<open>onerror\<close>).
\<close>

record env =
  getContext2d :: bool
  decodeImage :: "File \<Rightarrow> (nat \<times> nat) option"

text \<open>
  One effect, done: it is appended to the effects; \<^verbatim>\<open>setIsLoading\<close> also writes the
  state cell, and \<^verbatim>\<open>URL.revokeObjectURL\<close> also takes the URL out of the live ones.
\<close>

fun perform :: "effect \<Rightarrow> state \<Rightarrow> state" where
  "perform (SetIsLoading b) s = s\<lparr>isLoading := b, effects := effects s @ [SetIsLoading b]\<rparr>"
| "perform (RevokeObjectURL u) s =
     s\<lparr>objectURLs := removeAll u (objectURLs s), effects := effects s @ [RevokeObjectURL u]\<rparr>"
| "perform e s = s\<lparr>effects := effects s @ [e]\<rparr>"

definition performAll :: "effect list \<Rightarrow> state \<Rightarrow> state" where
  "performAll es s = foldl (\<lambda>s' e. perform e s') s es"

text \<open>
  Lines 96 to 103, the synchronous part: the executor of each promise runs at once, so
  every file gets a fresh object URL and its image starts loading before the
  \<^verbatim>\<open>await\<close>. The result is the \<^verbatim>\<open>src\<close> of each image, in the order of the files.
\<close>

fun loadImages :: "File list \<Rightarrow> state \<Rightarrow> url list \<times> state" where
  "loadImages [] s = ([], s)"
| "loadImages (f # fs) s =
     (let u = nextURL s;
          s1 = s\<lparr>objectURLs := objectURLs s @ [u], nextURL := Suc u,
                 effects := effects s @ [LoadImage f u]\<rparr>;
          (us, s2) = loadImages fs s1
      in (u # us, s2))"

text \<open>
  \<^verbatim>\<open>Promise.all\<close> over the loads: all the images, in the order of the files, or a
  rejection (\<open>None\<close>) when one of them fails.
\<close>

fun decodeAll :: "env \<Rightarrow> (File \<times> url) list \<Rightarrow> image list option" where
  "decodeAll e [] = Some []"
| "decodeAll e ((f, u) # rest) =
     (case decodeImage e f of
        None \<Rightarrow> None
      | Some (w, h) \<Rightarrow>
          (case decodeAll e rest of
             None \<Rightarrow> None
           | Some imgs \<Rightarrow> Some (\<lparr>src = u, naturalWidth = w, naturalHeight = h\<rparr> # imgs)))"

text \<open>
  A run that waits at the \<^verbatim>\<open>await\<close> of line 95: the values of the closure it runs in
  (\<^verbatim>\<open>files\<close>, \<^verbatim>\<open>outputWidth\<close>, \<^verbatim>\<open>outputFormat\<close> of the render it was started from) and the
  \<^verbatim>\<open>src\<close> of its images.
\<close>

record pending =
  pFiles :: "File list"
  pOutputWidth :: int
  pOutputFormat :: format
  pSrcs :: "url list"

text \<open>The \<^verbatim>\<open>catch\<close> and the \<^verbatim>\<open>finally\<close> of lines 138 to 143.\<close>

definition catchFinally :: "state \<Rightarrow> state" where
  "catchFinally s = perform (SetIsLoading False) (s\<lparr>error := Some ProcessingFailed\<rparr>)"

text \<open>
  Lines 78 to 103: \<^verbatim>\<open>handleMerge\<close> up to the \<^verbatim>\<open>await\<close>. The result is the state, and the
  run that now waits for its images, if one does. The function reads \<^verbatim>\<open>files\<close> and
  \<^verbatim>\<open>outputWidth\<close>; it does not read \<^verbatim>\<open>isLoading\<close>.
\<close>

definition mergeStart :: "env \<Rightarrow> state \<Rightarrow> state \<times> pending option" where
  "mergeStart e s =
     (if length (files s) = 0 then (s\<lparr>error := Some NoImagesSelected\<rparr>, None)
      else if outputWidth s < 100 \<or> outputWidth s > 2000
      then (s\<lparr>error := Some WidthOutOfRange\<rparr>, None)
      else
        let s1 = perform (SetIsLoading True) s;
            s2 = s1\<lparr>error := None\<rparr>
        in if getContext2d e
           then
             let (srcs, s3) = loadImages (files s) s2
             in (s3, Some \<lparr>pFiles = files s, pOutputWidth = outputWidth s,
                          pOutputFormat = outputFormat s, pSrcs = srcs\<rparr>)
           else (catchFinally s2, None))"

fun formatName :: "format \<Rightarrow> string" where
  "formatName jpeg = ''jpeg''"
| "formatName png = ''png''"

text \<open>
  Lines 104 to 143: the rest of the run, once every load has settled. The state is
  the component's state at that moment; the run's own values are those of its closure.
\<close>

definition mergeResume :: "env \<Rightarrow> pending \<Rightarrow> state \<Rightarrow> state" where
  "mergeResume e p s =
     (case decodeAll e (zip (pFiles p) (pSrcs p)) of
        None \<Rightarrow> catchFinally s
      | Some loadedImages \<Rightarrow>
          let s1 = performAll (composite (pOutputWidth p) loadedImages) s;
              mimeType = ''image/'' @ formatName (pOutputFormat p);
              s2 = perform (ToDataURL mimeType
                     (if pOutputFormat p = jpeg then Some (double (92 / 100)) else None)) s1;
              s3 = perform (Download (''merged-image.'' @ formatName (pOutputFormat p))) s2
          in perform (SetIsLoading False) s3)"

text \<open>A whole run with nothing else happening while it waits.\<close>

definition handleMerge :: "env \<Rightarrow> state \<Rightarrow> state" where
  "handleMerge e s =
     (case mergeStart e s of
        (s', None) \<Rightarrow> s'
      | (s', Some p) \<Rightarrow> mergeResume e p s')"

text \<open>
  The effects that make output: setting up and painting the canvas, encoding it,
  downloading the result.
\<close>

fun isOutput :: "effect \<Rightarrow> bool" where
  "isOutput (SetCanvasSize w h) = True"
| "isOutput (FillRect x y w h) = True"
| "isOutput (DrawImage img x y w h) = True"
| "isOutput (ToDataURL m q) = True"
| "isOutput (Download n) = True"
| "isOutput e = False"

section \<open>The scale of a decoded file\<close>

text \<open>
  The scale factor and the height that lines 108 and 109 give to an image of the
  natural size \<open>d\<close>, written on the result of the decoder.
\<close>

definition dimsRatio :: "int \<Rightarrow> (nat \<times> nat) option \<Rightarrow> number" where
  "dimsRatio W d =
     (case d of None \<Rightarrow> NaN | Some (w, h) \<Rightarrow> num_div (num_of_int W) (num_of_nat w))"

definition dimsHeight :: "int \<Rightarrow> (nat \<times> nat) option \<Rightarrow> number" where
  "dimsHeight W d =
     (case d of
        None \<Rightarrow> NaN
      | Some (w, h) \<Rightarrow> num_mul (num_of_nat h) (num_div (num_of_int W) (num_of_nat w)))"

section \<open>Renders and closures\<close>

text \<open>
  A handler is a closure of the render that attached it to the page: \<^verbatim>\<open>files\<close>,
  \<^verbatim>\<open>outputWidth\<close>, \<^verbatim>\<open>outputFormat\<close> and \<^verbatim>\<open>isLoading\<close> in its body are the values of that
  render, until the page renders again. What it writes goes to the state as it is:
  the setters, the updater functions (\<^verbatim>\<open>prev => ...\<close>), the refs and the browser. The
  handlers below take the state \<open>v\<close> of the render they belong to and the state \<open>s\<close> they
  run on. With \<open>v = s\<close> they are the handlers above.
\<close>

definition addFilesIn :: "state \<Rightarrow> File list \<Rightarrow> state \<Rightarrow> state" where
  "addFilesIn v newFiles s =
     (let s1 = s\<lparr>error := None\<rparr>;
          fileArray = newFiles;
          imageFiles = filter (\<lambda>file. startsWith (ftype file) ''image/'') fileArray
      in if length (files v) + length imageFiles > 10
         then s1\<lparr>error := Some TooManyImages\<rparr>
         else s1\<lparr>files := files s1 @ imageFiles\<rparr>)"

definition handleDragSortIn :: "state \<Rightarrow> state \<Rightarrow> state option" where
  "handleDragSortIn v s =
     (case dragItem s of
        None \<Rightarrow> Some s
      | Some dragIndex \<Rightarrow>
          (case dragOverItem s of
             None \<Rightarrow> Some s
           | Some dragOverIndex \<Rightarrow>
               (case dragSort dragIndex dragOverIndex (files v) of
                  None \<Rightarrow> None
                | Some newFiles \<Rightarrow>
                    Some (s\<lparr>dragItem := None, dragOverItem := None, files := newFiles\<rparr>))))"

definition mergeStartIn :: "env \<Rightarrow> state \<Rightarrow> state \<Rightarrow> state \<times> pending option" where
  "mergeStartIn e v s =
     (if length (files v) = 0 then (s\<lparr>error := Some NoImagesSelected\<rparr>, None)
      else if outputWidth v < 100 \<or> outputWidth v > 2000
      then (s\<lparr>error := Some WidthOutOfRange\<rparr>, None)
      else
        let s1 = perform (SetIsLoading True) s;
            s2 = s1\<lparr>error := None\<rparr>
        in if getContext2d e
           then
             let (srcs, s3) = loadImages (files v) s2
             in (s3, Some \<lparr>pFiles = files v, pOutputWidth = outputWidth v,
                          pOutputFormat = outputFormat v, pSrcs = srcs\<rparr>)
           else (catchFinally s2, None))"

section \<open>The merge button (lines 228 to 235)\<close>

text \<open>
  The button carries \<^verbatim>\<open>disabled={isLoading || files.length === 0}\<close>, with the values of
  the render \<open>v\<close> that put it on the page; a disabled button does not fire \<^verbatim>\<open>onClick\<close>.
  A click on a button that is not disabled calls the \<open>handleMerge\<close> of that render.
\<close>

definition mergeButtonDisabled :: "state \<Rightarrow> bool" where
  "mergeButtonDisabled v = (isLoading v \<or> length (files v) = 0)"

definition clickMergeButton :: "env \<Rightarrow> state \<Rightarrow> state \<Rightarrow> state \<times> pending option" where
  "clickMergeButton e v s = (if mergeButtonDisabled v then (s, None) else mergeStartIn e v s)"

section \<open>The page over time\<close>

text \<open>
  The page: the state \<open>view\<close> of the last render, the state \<open>current\<close> as the handlers
  have left it, and the runs that wait at their \<^verbatim>\<open>await\<close>.
\<close>

record page =
  view :: state
  current :: state
  runs :: "pending list"

definition initialPage :: page where
  "initialPage = \<lparr>view = initialState, current = initialState, runs = []\<rparr>"

text \<open>
  What can happen to the page: the user picks or drops files, presses the remove button
  of an entry, drags an entry (start, enter, end), edits the width or the format, or a
  click is dispatched on the merge button; the page renders again; the loads of a
  waiting run settle.
\<close>

datatype action =
    AddFiles "File list"
  | RemoveFile nat
  | DragStart nat
  | DragEnter nat
  | DragEnd
  | SetOutputWidth int
  | SetOutputFormat format
  | ClickMerge
  | Render
  | Settle nat

text \<open>
  One action. The entries on the page are those of the last render, so an index is one
  of \<open>files (view p)\<close>; an action the page does not offer, and a drag that leaves
  \<^verbatim>\<open>undefined\<close> among the files, give \<open>None\<close>.
\<close>

fun step :: "env \<Rightarrow> action \<Rightarrow> page \<Rightarrow> page option" where
  "step e (AddFiles newFiles) p = Some (p\<lparr>current := addFilesIn (view p) newFiles (current p)\<rparr>)"
| "step e (RemoveFile index) p =
     (if index < length (files (view p))
      then Some (p\<lparr>current := handleRemoveFile index (current p)\<rparr>) else None)"
| "step e (DragStart index) p =
     (if index < length (files (view p))
      then Some (p\<lparr>current := (current p)\<lparr>dragItem := Some index\<rparr>\<rparr>) else None)"
| "step e (DragEnter index) p =
     (if index < length (files (view p))
      then Some (p\<lparr>current := (current p)\<lparr>dragOverItem := Some index\<rparr>\<rparr>) else None)"
| "step e DragEnd p =
     (case handleDragSortIn (view p) (current p) of
        None \<Rightarrow> None
      | Some s' \<Rightarrow> Some (p\<lparr>current := s'\<rparr>))"
| "step e (SetOutputWidth w) p = Some (p\<lparr>current := (current p)\<lparr>outputWidth := w\<rparr>\<rparr>)"
| "step e (SetOutputFormat fmt) p = Some (p\<lparr>current := (current p)\<lparr>outputFormat := fmt\<rparr>\<rparr>)"
| "step e ClickMerge p =
     (case clickMergeButton e (view p) (current p) of
        (s', None) \<Rightarrow> Some (p\<lparr>current := s'\<rparr>)
      | (s', Some r) \<Rightarrow> Some (p\<lparr>current := s', runs := runs p @ [r]\<rparr>))"
| "step e Render p = Some (p\<lparr>view := current p\<rparr>)"
| "step e (Settle k) p =
     (if k < length (runs p)
      then Some (p\<lparr>current := mergeResume e (runs p ! k) (current p),
                    runs := take k (runs p) @ drop (Suc k) (runs p)\<rparr>)
      else None)"

fun run :: "env \<Rightarrow> action list \<Rightarrow> page \<Rightarrow> page option" where
  "run e [] p = Some p"
| "run e (a # as) p = (case step e a p of None \<Rightarrow> None | Some p' \<Rightarrow> run e as p')"

text \<open>
  Every click on the merge button comes after a render that is later than the click
  before it. \<open>fresh\<close> says whether the page has rendered since the last click.
\<close>

fun clicksAfterRender :: "bool \<Rightarrow> action list \<Rightarrow> bool" where
  "clicksAfterRender fresh [] = True"
| "clicksAfterRender fresh (Render # as) = clicksAfterRender True as"
| "clicksAfterRender fresh (ClickMerge # as) = (fresh \<and> clicksAfterRender False as)"
| "clicksAfterRender fresh (a # as) = clicksAfterRender fresh as"

text \<open>
  What holds of the page between the actions of such a sequence: at most one run
  waits, \<^verbatim>\<open>isLoading\<close> is set exactly while one does, and a page that has rendered
  since the last click shows \<^verbatim>\<open>isLoading\<close> when it is set.
\<close>

definition oneRun :: "bool \<Rightarrow> page \<Rightarrow> bool" where
  "oneRun fresh p =
     (length (runs p) \<le> 1
      \<and> (isLoading (current p) \<longleftrightarrow> runs p \<noteq> [])
      \<and> (if fresh then (if isLoading (current p) then isLoading (view p) else True) else True))"

section \<open>Concrete inputs\<close>

text \<open>An image file with the bytes \<open>n\<close>, and a file that is not an image.\<close>

definition pic :: "nat \<Rightarrow> File" where
  "pic n = \<lparr>fname = ''pic.png'', ftype = ''image/png'', fsize = 1024, blob = n\<rparr>"


text \<open>
  A browser that gives a 2d context and decodes the bytes 1, 2 and 3 to images of
  800 x 400, 400 x 400 and 1200 x 600; it can decode no other file.
\<close>

definition browser :: env where
  "browser = \<lparr>getContext2d = True,
     decodeImage = (\<lambda>f. if blob f = 1 then Some (800, 400)
                        else if blob f = 2 then Some (400, 400)
                        else if blob f = 3 then Some (1200, 600)
                        else None)\<rparr>"

section \<open>Properties of the layout\<close>

lemma mapHeights_fst: "fst (mapHeights W imgs t) = map (scaledHeight W) imgs"
  by (induction imgs arbitrary: t) (simp_all add: Let_def split_beta)

lemma mapHeights_snd: "snd (mapHeights W imgs t) = foldl num_add t (map (scaledHeight W) imgs)"
  by (induction imgs arbitrary: t) (simp_all add: Let_def split_beta)

lemma mapHeights_eq:
  "mapHeights W imgs t = (map (scaledHeight W) imgs, foldl num_add t (map (scaledHeight W) imgs))"
  using mapHeights_fst [of W imgs t] mapHeights_snd [of W imgs t]
  by (cases "mapHeights W imgs t") simp

lemma scaledHeight_spec: "scaledHeight W img = spec_height W img"
  by (simp add: scaledHeight_def scaleRatio_def spec_height_def)

lemma scaledHeight_eq: "scaledHeight W = spec_height W"
  by (rule ext) (rule scaledHeight_spec)

lemma num_sum_take_Suc:
  "k < length hs \<Longrightarrow> num_sum (take (Suc k) hs) = num_add (num_sum (take k hs)) (hs ! k)"
  by (simp add: num_sum_def take_Suc_conv_app_nth)

text \<open>
  The loop of \<^verbatim>\<open>forEach\<close>, entered at image \<open>k\<close> with \<^verbatim>\<open>currentY\<close> the sum of the
  heights before \<open>k\<close>, places the remaining images as the specification says.
\<close>

lemma drawImages_from:
  assumes "hs = map (spec_height W) imgs"
  shows "k \<le> length imgs \<Longrightarrow>
    drawImages W hs (drop k imgs) k (num_sum (take k hs)) =
    concat (map (spec_placement W imgs) [k..<length imgs])"
proof (induction "length imgs - k" arbitrary: k)
  case 0
  then show ?case by simp
next
  case (Suc n)
  then have k: "k < length imgs" by simp
  have d: "drop k imgs = imgs ! k # drop (Suc k) imgs"
    using k by (simp add: Cons_nth_drop_Suc)
  have h: "heightAt hs k = spec_height W (imgs ! k)"
    using k assms by (simp add: heightAt_def)
  have s: "num_add (num_sum (take k hs)) (spec_height W (imgs ! k)) = num_sum (take (Suc k) hs)"
    using k assms by (simp add: num_sum_take_Suc)
  have ih: "drawImages W hs (drop (Suc k) imgs) (Suc k) (num_sum (take (Suc k) hs)) =
    concat (map (spec_placement W imgs) [Suc k..<length imgs])"
    using Suc k by (intro Suc.hyps(1)) simp_all
  have u: "[k..<length imgs] = k # [Suc k..<length imgs]"
    using k by (simp add: upt_conv_Cons)
  show ?case
    unfolding d u using h s ih assms by (simp add: spec_placement_def Let_def)
qed

text \<open>Evaluating the arithmetic of the doubles on numerals.\<close>

lemma floor_rat_numeral: "\<lfloor>(numeral a / numeral b :: rat)\<rfloor> = numeral a div numeral b"
  using floor_divide_of_int_eq [of "numeral a" "numeral b", where ?'a = rat] by simp

lemma floor_rat_one: "\<lfloor>(1 / numeral b :: rat)\<rfloor> = 1 div numeral b"
  using floor_divide_of_int_eq [of 1 "numeral b", where ?'a = rat] by simp

lemmas double_eval = double_def nearest_def quantum_def ilog2_def pow2_def roundHalfEven_def
  bits.simps floor_rat_numeral floor_rat_one

lemmas layout_eval = scaledHeight_def scaleRatio_def num_of_int_def num_of_nat_def
  toUnsignedLong_def canvasDimension_def double_eval

text \<open>
  A sum that is not negative and below \<open>2 ^ 31\<close> reaches the canvas without its
  fraction.
\<close>

lemma canvasDimension_floor:
  assumes "0 \<le> q" and "q < 2 ^ 31"
  shows "canvasDimension d (Fin q) = nat \<lfloor>q\<rfloor>"
proof -
  have l: "0 \<le> \<lfloor>q\<rfloor>" using assms(1) by simp
  have "\<lfloor>q\<rfloor> < 2 ^ 31" using assms(2) by (simp add: floor_less_iff)
  then have u: "\<lfloor>q\<rfloor> < 2147483648" by simp
  then have m: "\<lfloor>q\<rfloor> mod 4294967296 = \<lfloor>q\<rfloor>" using l by simp
  have n: "nat \<lfloor>q\<rfloor> \<le> 2147483647" using l u by linarith
  show ?thesis
    using assms(1) n by (simp add: canvasDimension_def toUnsignedLong_def m)
qed

text \<open>
  Claim C1, as stated: image \<open>i\<close> gets the height \<open>h_i * (W / w_i)\<close> and the canvas
  height is the sum of the heights. For one image of 720 x 900 at the width 780 the
  formula gives 975; the code, which rounds the quotient and then the product to
  doubles, computes \<open>975 - 2 ^ -43\<close> (974.9999999999999), assigns that to the canvas
  height, and the canvas keeps 974.
\<close>

theorem composite_layout_counterexample:
  "exact_height 780 \<lparr>src = 0, naturalWidth = 720, naturalHeight = 900\<rparr> = 975
   \<and> scaledHeight 780 \<lparr>src = 0, naturalWidth = 720, naturalHeight = 900\<rparr>
       = Fin (975 - 1 / 2 ^ 43)
   \<and> composite 780 [\<lparr>src = 0, naturalWidth = 720, naturalHeight = 900\<rparr>]
       = [SetCanvasSize (Fin 780) (Fin (975 - 1 / 2 ^ 43)),
          FillRect (Fin 0) (Fin 0) (Fin 780) (Fin 974),
          DrawImage \<lparr>src = 0, naturalWidth = 720, naturalHeight = 900\<rparr>
            (Fin 0) (Fin 0) (Fin 780) (Fin (975 - 1 / 2 ^ 43)),
          RevokeObjectURL 0]"
  by (simp add: exact_height_def composite_def heightAt_def layout_eval Let_def)

text \<open>
  Claim C1, amended. For every sequence of decoded images and every target width \<open>W\<close>,
  the code of lines 106 to 126 gives image \<open>i\<close> the height \<open>h_i * (W / w_i)\<close> in the
  arithmetic of the doubles (the quotient rounded, then the product), and draws it at
  \<open>x = 0\<close> with width \<open>W\<close> at the vertical offset that is the sum of the heights of the
  images before \<open>i\<close>, rounded after each addition. It assigns \<open>W\<close> to the canvas width
  and the sum of all heights to the canvas height; the canvas keeps both as unsigned
  integers, so that its height is the sum without its fraction (for a sum that is not
  negative and below \<open>2 ^ 31\<close>), and the white rectangle is filled to that size.
\<close>

theorem composite_layout:
  "composite W imgs =
     SetCanvasSize (num_of_int W) (num_sum (map (spec_height W) imgs))
     # FillRect (Fin 0) (Fin 0)
         (num_of_nat (canvasDimension 300 (num_of_int W)))
         (num_of_nat (canvasDimension 150 (num_sum (map (spec_height W) imgs))))
     # concat (map (spec_placement W imgs) [0..<length imgs])
   \<and> (\<forall>q. num_sum (map (spec_height W) imgs) = Fin q \<and> 0 \<le> q \<and> q < 2 ^ 31 \<longrightarrow>
         canvasDimension 150 (num_sum (map (spec_height W) imgs)) = nat \<lfloor>q\<rfloor>)"
proof -
  have m: "mapHeights W imgs (Fin 0) =
    (map (spec_height W) imgs, num_sum (map (spec_height W) imgs))"
    by (simp add: mapHeights_eq num_sum_def scaledHeight_eq)
  have d: "drawImages W (map (spec_height W) imgs) imgs 0 (Fin 0) =
    concat (map (spec_placement W imgs) [0..<length imgs])"
    using drawImages_from [of "map (spec_height W) imgs" W imgs 0]
    by (simp add: num_sum_def)
  have c: "composite W imgs =
     SetCanvasSize (num_of_int W) (num_sum (map (spec_height W) imgs))
     # FillRect (Fin 0) (Fin 0)
         (num_of_nat (canvasDimension 300 (num_of_int W)))
         (num_of_nat (canvasDimension 150 (num_sum (map (spec_height W) imgs))))
     # concat (map (spec_placement W imgs) [0..<length imgs])"
    by (simp add: composite_def m d)
  show ?thesis
    using c by (simp add: canvasDimension_floor)
qed

theorem composite_layout_witness:
  "num_sum (map (spec_height 780) [\<lparr>src = 0, naturalWidth = 720, naturalHeight = 900\<rparr>])
     = Fin (975 - 1 / 2 ^ 43)
   \<and> canvasDimension 150
        (num_sum (map (spec_height 780) [\<lparr>src = 0, naturalWidth = 720, naturalHeight = 900\<rparr>]))
     = 974
   \<and> hd (composite 780 [\<lparr>src = 0, naturalWidth = 720, naturalHeight = 900\<rparr>])
     = SetCanvasSize (Fin 780) (Fin (975 - 1 / 2 ^ 43))"
proof -
  let ?imgs = "[\<lparr>src = 0, naturalWidth = 720, naturalHeight = 900\<rparr>]"
  have s: "num_sum (map (spec_height 780) ?imgs) = Fin (975 - 1 / 2 ^ 43)"
    by (simp add: num_sum_def spec_height_def num_of_int_def num_of_nat_def double_eval)
  have w: "num_of_int 780 = Fin 780"
    by (simp add: num_of_int_def double_eval)
  from composite_layout [of 780 ?imgs]
  have h: "hd (composite 780 ?imgs)
      = SetCanvasSize (num_of_int 780) (num_sum (map (spec_height 780) ?imgs))"
    and f: "\<forall>q. num_sum (map (spec_height 780) ?imgs) = Fin q \<and> 0 \<le> q \<and> q < 2 ^ 31 \<longrightarrow>
         canvasDimension 150 (num_sum (map (spec_height 780) ?imgs)) = nat \<lfloor>q\<rfloor>"
    by simp_all
  from f s have "canvasDimension 150 (num_sum (map (spec_height 780) ?imgs))
      = nat \<lfloor>(975 - 1 / 2 ^ 43 :: rat)\<rfloor>"
    by simp
  then have "canvasDimension 150 (num_sum (map (spec_height 780) ?imgs)) = 974"
    by (simp add: floor_rat_numeral)
  then show ?thesis using s h w by simp
qed

text \<open>
  Claim C6, as stated: three images of natural sizes 800 x 400, 400 x 400 and
  1200 x 600, merged at width 780, get the heights 390, 390 and 390 on a canvas of
  780 x 1170. The code does not compute that: the second image is scaled up by
  780 / 400, to the height 780.
\<close>

theorem scenario_heights_counterexample:
  "fst (mapHeights 780
        [\<lparr>src = 0, naturalWidth = 800, naturalHeight = 400\<rparr>,
         \<lparr>src = 1, naturalWidth = 400, naturalHeight = 400\<rparr>,
         \<lparr>src = 2, naturalWidth = 1200, naturalHeight = 600\<rparr>] (Fin 0))
     \<noteq> [Fin 390, Fin 390, Fin 390]
   \<and> hd (composite 780
        [\<lparr>src = 0, naturalWidth = 800, naturalHeight = 400\<rparr>,
         \<lparr>src = 1, naturalWidth = 400, naturalHeight = 400\<rparr>,
         \<lparr>src = 2, naturalWidth = 1200, naturalHeight = 600\<rparr>])
     \<noteq> SetCanvasSize (Fin 780) (Fin 1170)"
  by (simp add: composite_def layout_eval Let_def)

text \<open>
  Claim C6, amended: for these three images and the width 780 the scaled heights are
  390, 780 and 390, the images are drawn at the offsets 0, 390 and 1170, and the canvas
  is 780 x 1560.
\<close>

theorem scenario_heights:
  "mapHeights 780
     [\<lparr>src = u1, naturalWidth = 800, naturalHeight = 400\<rparr>,
      \<lparr>src = u2, naturalWidth = 400, naturalHeight = 400\<rparr>,
      \<lparr>src = u3, naturalWidth = 1200, naturalHeight = 600\<rparr>] (Fin 0)
     = ([Fin 390, Fin 780, Fin 390], Fin 1560)
   \<and> composite 780
     [\<lparr>src = u1, naturalWidth = 800, naturalHeight = 400\<rparr>,
      \<lparr>src = u2, naturalWidth = 400, naturalHeight = 400\<rparr>,
      \<lparr>src = u3, naturalWidth = 1200, naturalHeight = 600\<rparr>]
     = [SetCanvasSize (Fin 780) (Fin 1560),
        FillRect (Fin 0) (Fin 0) (Fin 780) (Fin 1560),
        DrawImage \<lparr>src = u1, naturalWidth = 800, naturalHeight = 400\<rparr>
          (Fin 0) (Fin 0) (Fin 780) (Fin 390),
        RevokeObjectURL u1,
        DrawImage \<lparr>src = u2, naturalWidth = 400, naturalHeight = 400\<rparr>
          (Fin 0) (Fin 390) (Fin 780) (Fin 780),
        RevokeObjectURL u2,
        DrawImage \<lparr>src = u3, naturalWidth = 1200, naturalHeight = 600\<rparr>
          (Fin 0) (Fin 1170) (Fin 780) (Fin 390),
        RevokeObjectURL u3]"
  by (simp add: composite_def heightAt_def layout_eval Let_def)

section \<open>Properties of the working set\<close>


lemma startsWith_pic: "startsWith (ftype (pic n)) ''image/''"
  by (simp add: pic_def startsWith_def)



lemma filterWithIndex_neq:
  "filterWithIndex (\<lambda>_ i. i \<noteq> index) xs n =
     (if index < n then xs else take (index - n) xs @ drop (Suc (index - n)) xs)"
proof (induction xs arbitrary: n)
  case Nil
  then show ?case by simp
next
  case (Cons x xs)
  show ?case
  proof (cases "index < n")
    case True
    then show ?thesis using Cons [of "Suc n"] by simp
  next
    case False
    show ?thesis
    proof (cases "index = n")
      case True
      then show ?thesis using Cons [of "Suc n"] by simp
    next
      case ne: False
      with False have "index - n = Suc (index - Suc n)" by simp
      then show ?thesis using Cons [of "Suc n"] False ne by simp
    qed
  qed
qed

text \<open>
  Claim C9. \<open>handleRemoveFile\<close> deletes the entry at the index it is given and nothing
  else: the entries before it and the entries after it stay, unchanged and in their
  order, so at most one entry goes; and when the index names no entry the state is
  left as it was.
\<close>

theorem handleRemoveFile_frame:
  "handleRemoveFile index s = s\<lparr>files := take index (files s) @ drop (Suc index) (files s)\<rparr>
   \<and> take index (files (handleRemoveFile index s)) = take index (files s)
   \<and> drop index (files (handleRemoveFile index s)) = drop (Suc index) (files s)
   \<and> length (files s) - 1 \<le> length (files (handleRemoveFile index s))
   \<and> (length (files s) \<le> index \<longrightarrow> handleRemoveFile index s = s)"
  by (auto simp: handleRemoveFile_def filterWithIndex_neq min_def)

theorem handleRemoveFile_frame_witness:
  "files (handleRemoveFile 1 (initialState\<lparr>files := [pic 1, pic 2, pic 3]\<rparr>)) = [pic 1, pic 3]
   \<and> handleRemoveFile 3 (initialState\<lparr>files := [pic 1, pic 2, pic 3]\<rparr>)
       = initialState\<lparr>files := [pic 1, pic 2, pic 3]\<rparr>"
  using handleRemoveFile_frame [of 1 "initialState\<lparr>files := [pic 1, pic 2, pic 3]\<rparr>"]
    handleRemoveFile_frame [of 3 "initialState\<lparr>files := [pic 1, pic 2, pic 3]\<rparr>"]
  by simp

lemma dragSort_valid:
  assumes "f < length xs" "t < length xs"
  shows "dragSort f t xs = Some (spec_reorder f t xs)"
proof -
  have r: "splice f 1 [] xs = ([xs ! f], take f xs @ drop (Suc f) xs)"
    using assms(1) by (simp add: splice_def Let_def min_def hd_drop_conv_nth take_Suc)
  have l: "length (take f xs @ drop (Suc f) xs) = length xs - 1"
    using assms(1) by simp
  have m: "min t (length (take f xs @ drop (Suc f) xs)) = t"
    using assms l by simp
  show ?thesis
    unfolding dragSort_def r
    by (simp only: split_conv Let_def list.case splice_def snd_conv m spec_reorder_def) simp
qed




lemma spec_reorder_length:
  "f < length xs \<Longrightarrow> t < length xs \<Longrightarrow> length (spec_reorder f t xs) = length xs"
  by (auto simp: spec_reorder_def Let_def min_def)



lemma spec_reorder_map:
  "f < length xs \<Longrightarrow> map g (spec_reorder f t xs) = spec_reorder f t (map g xs)"
  by (simp add: spec_reorder_def Let_def take_map drop_map)

lemma spec_reorder_set:
  assumes "f < length xs"
  shows "set (spec_reorder f t xs) = set xs"
proof -
  define ys where "ys = take f xs @ drop (Suc f) xs"
  have "set (spec_reorder f t xs) = set (take t ys @ drop t ys) \<union> {xs ! f}"
    by (auto simp: spec_reorder_def ys_def Let_def)
  also have "\<dots> = set ys \<union> {xs ! f}" by simp
  also have "\<dots> = set (take f xs @ xs ! f # drop (Suc f) xs)" by (auto simp: ys_def)
  also have "\<dots> = set xs" using assms by (simp only: id_take_nth_drop [symmetric])
  finally show ?thesis .
qed

lemma dragSort_example: "dragSort 0 2 [A, B, C] = Some [B, C, A]"
  by (simp add: dragSort_def splice_def)




section \<open>Properties of the merge run\<close>



lemma loadImages_eq:
  "loadImages fs s =
     ([nextURL s..<nextURL s + length fs],
      s\<lparr>objectURLs := objectURLs s @ [nextURL s..<nextURL s + length fs],
        nextURL := nextURL s + length fs,
        effects := effects s @ map (\<lambda>(f, u). LoadImage f u)
                     (zip fs [nextURL s..<nextURL s + length fs])\<rparr>)"
proof (induction fs arbitrary: s)
  case Nil
  then show ?case by simp
next
  case (Cons f fs)
  have u: "[nextURL s..<nextURL s + length (f # fs)] =
    nextURL s # [Suc (nextURL s)..<Suc (nextURL s) + length fs]"
    by (subst upt_rec) simp
  show ?case
    unfolding u by (simp add: Cons Let_def)
qed

lemma decodeAll_None:
  "length us = length fs \<Longrightarrow> f \<in> set fs \<Longrightarrow> decodeImage e f = None \<Longrightarrow>
     decodeAll e (zip fs us) = None"
proof (induction fs arbitrary: us)
  case Nil
  then show ?case by simp
next
  case (Cons g fs)
  then obtain u us' where us: "us = u # us'" by (cases us) auto
  show ?case
  proof (cases "g = f")
    case True
    then show ?thesis using Cons.prems us by simp
  next
    case False
    then have "decodeAll e (zip fs us') = None"
      using Cons us by simp
    then show ?thesis using us by (simp split: option.splits)
  qed
qed

lemma effects_perform: "effects (perform x s) = effects s @ [x]"
  by (cases x) simp_all

lemma files_perform: "files (perform x s) = files s"
  by (cases x) simp_all

lemma error_perform: "error (perform x s) = error s"
  by (cases x) simp_all

lemma effects_catchFinally: "effects (catchFinally s) = effects s @ [SetIsLoading False]"
  by (simp add: catchFinally_def)

lemma catchFinally_fields:
  "error (catchFinally s) = Some ProcessingFailed" "isLoading (catchFinally s) = False"
  "files (catchFinally s) = files s" "objectURLs (catchFinally s) = objectURLs s"
  by (simp_all add: catchFinally_def)

lemma isOutput_LoadImage: "filter isOutput (map (\<lambda>(f, u). LoadImage f u) xs) = []"
  by (induction xs) auto

text \<open>
  Claim C4. When the working set is not empty, the width is in range and one of the
  files does not decode, the run ends in the \<^verbatim>\<open>catch\<close>: the error is the message that
  the processing failed, \<^verbatim>\<open>isLoading\<close> is false again, the working set is the one
  the run started from, and the run has made no output (the canvas is neither sized
  nor painted, nothing is encoded, nothing is downloaded).
\<close>

theorem handleMerge_decode_failure:
  assumes "files s \<noteq> []" and "100 \<le> outputWidth s" and "outputWidth s \<le> 2000"
    and "f \<in> set (files s)" and "decodeImage e f = None"
  shows "error (handleMerge e s) = Some ProcessingFailed
    \<and> isLoading (handleMerge e s) = False
    \<and> files (handleMerge e s) = files s
    \<and> filter isOutput (effects (handleMerge e s)) = filter isOutput (effects s)"
proof (cases "getContext2d e")
  case False
  then have "handleMerge e s = catchFinally ((perform (SetIsLoading True) s)\<lparr>error := None\<rparr>)"
    using assms(1-3) by (simp add: handleMerge_def mergeStart_def Let_def)
  then show ?thesis
    by (simp add: catchFinally_fields effects_catchFinally)
next
  case True
  define s2 where "s2 = (perform (SetIsLoading True) s)\<lparr>error := None\<rparr>"
  define us where "us = [nextURL s2..<nextURL s2 + length (files s)]"
  define s3 where "s3 = snd (loadImages (files s) s2)"
  have l: "loadImages (files s) s2 = (us, s3)"
    by (simp add: us_def s3_def loadImages_eq)
  have d: "decodeAll e (zip (files s) us) = None"
    using assms(4,5) by (intro decodeAll_None [of us "files s" f]) (simp_all add: us_def)
  have l': "loadImages (files s)
      (s\<lparr>isLoading := True, effects := effects s @ [SetIsLoading True], error := None\<rparr>)
    = (us, s3)"
    using l by (simp add: s2_def)
  have "handleMerge e s = catchFinally s3"
    using assms(1-3) True d
    by (simp add: handleMerge_def mergeStart_def Let_def l' mergeResume_def)
  moreover have "files s3 = files s"
    by (simp add: s3_def loadImages_eq s2_def)
  moreover have "filter isOutput (effects s3) = filter isOutput (effects s)"
    by (simp add: s3_def loadImages_eq s2_def isOutput_LoadImage)
  ultimately show ?thesis
    by (simp add: catchFinally_fields effects_catchFinally)
qed


theorem handleMerge_decode_failure_witness:
  "error (handleMerge browser (initialState\<lparr>files := [pic 1, pic 0]\<rparr>)) = Some ProcessingFailed
   \<and> isLoading (handleMerge browser (initialState\<lparr>files := [pic 1, pic 0]\<rparr>)) = False
   \<and> files (handleMerge browser (initialState\<lparr>files := [pic 1, pic 0]\<rparr>)) = [pic 1, pic 0]
   \<and> filter isOutput (effects (handleMerge browser (initialState\<lparr>files := [pic 1, pic 0]\<rparr>))) = []"
  using handleMerge_decode_failure
    [of "initialState\<lparr>files := [pic 1, pic 0]\<rparr>" "pic 0" browser]
  by (simp add: initialState_def browser_def pic_def)

lemma decodeAll_Some:
  "length us = length fs \<Longrightarrow> decodeAll e (zip fs us) = Some imgs \<Longrightarrow>
     map src imgs = us
     \<and> map (\<lambda>img. Some (naturalWidth img, naturalHeight img)) imgs = map (decodeImage e) fs"
proof (induction fs arbitrary: us imgs)
  case Nil
  then show ?case by simp
next
  case (Cons g fs)
  then obtain u us' where us: "us = u # us'" by (cases us) auto
  from Cons.prems(2) us obtain w h imgs' where
    g: "decodeImage e g = Some (w, h)" and r: "decodeAll e (zip fs us') = Some imgs'"
    and i: "imgs = \<lparr>src = u, naturalWidth = w, naturalHeight = h\<rparr> # imgs'"
    by (auto split: option.splits)
  from Cons.IH [OF _ r] Cons.prems(1) us
  have "map src imgs' = us'
     \<and> map (\<lambda>img. Some (naturalWidth img, naturalHeight img)) imgs' = map (decodeImage e) fs"
    by simp
  then show ?case using us g i by simp
qed

lemma decodeAll_total:
  "length us = length fs \<Longrightarrow> \<forall>f \<in> set fs. decodeImage e f \<noteq> None \<Longrightarrow>
     \<exists>imgs. decodeAll e (zip fs us) = Some imgs"
proof (induction fs arbitrary: us)
  case Nil
  then show ?case by simp
next
  case (Cons g fs)
  then obtain u us' where us: "us = u # us'" by (cases us) auto
  obtain w h where g: "decodeImage e g = Some (w, h)"
    using Cons.prems(2) by (cases "decodeImage e g") auto
  obtain imgs where "decodeAll e (zip fs us') = Some imgs"
    using Cons.IH [of us'] Cons.prems us by auto
  then show ?case using us g by simp
qed

lemma decodeAll_decodable:
  assumes "length us = length fs" and "decodeAll e (zip fs us) = Some imgs"
  shows "\<forall>f \<in> set fs. decodeImage e f \<noteq> None"
proof (rule ballI, rule notI)
  fix f
  assume "f \<in> set fs" and "decodeImage e f = None"
  from decodeAll_None [OF assms(1) this] assms(2) show False by simp
qed

lemma scaledHeight_dims:
  "scaledHeight W img = dimsHeight W (Some (naturalWidth img, naturalHeight img))"
  by (simp add: scaledHeight_def scaleRatio_def dimsHeight_def)

lemma scaleRatio_dims:
  "scaleRatio W img = dimsRatio W (Some (naturalWidth img, naturalHeight img))"
  by (simp add: scaleRatio_def dimsRatio_def)

lemma heights_of_files:
  assumes "length us = length fs" "decodeAll e (zip fs us) = Some imgs"
  shows "map (scaledHeight W) imgs = map (dimsHeight W \<circ> decodeImage e) fs"
    and "map (scaleRatio W) imgs = map (dimsRatio W \<circ> decodeImage e) fs"
proof -
  have d: "map (\<lambda>img. Some (naturalWidth img, naturalHeight img)) imgs = map (decodeImage e) fs"
    using decodeAll_Some [OF assms] by simp
  have "map (scaledHeight W) imgs =
    map (dimsHeight W) (map (\<lambda>img. Some (naturalWidth img, naturalHeight img)) imgs)"
    by (simp add: scaledHeight_dims o_def)
  then show "map (scaledHeight W) imgs = map (dimsHeight W \<circ> decodeImage e) fs"
    by (simp only: d map_map)
  have "map (scaleRatio W) imgs =
    map (dimsRatio W) (map (\<lambda>img. Some (naturalWidth img, naturalHeight img)) imgs)"
    by (simp add: scaleRatio_dims o_def)
  then show "map (scaleRatio W) imgs = map (dimsRatio W \<circ> decodeImage e) fs"
    by (simp only: d map_map)
qed

text \<open>
  Claim C8. Let a working set whose files all decode be reordered by a drag from \<open>i\<close>
  to \<open>j\<close>, both indices of the list. Then the files of the new order decode as well,
  and at every width the scale factors and the scaled heights of the new run are
  those of the old run, moved the same way as the files: each image keeps its scale
  factor and its height, and only its place in the drawing order changes.
\<close>

theorem reorder_keeps_scale:
  assumes "i < length fs" and "j < length fs" and "dragSort i j fs = Some fs'"
    and "length us = length fs" and "length us' = length fs"
    and "decodeAll e (zip fs us) = Some imgs"
  shows "\<exists>imgs'. decodeAll e (zip fs' us') = Some imgs'
    \<and> map (scaleRatio W) imgs' = spec_reorder i j (map (scaleRatio W) imgs)
    \<and> map (scaledHeight W) imgs' = spec_reorder i j (map (scaledHeight W) imgs)
    \<and> fst (mapHeights W imgs' (Fin 0)) = spec_reorder i j (fst (mapHeights W imgs (Fin 0)))"
proof -
  have fs': "fs' = spec_reorder i j fs"
    using dragSort_valid [OF assms(1,2)] assms(3) by simp
  have len: "length us' = length fs'"
    using assms(1,2,5) by (simp add: fs' spec_reorder_length)
  have "\<forall>f \<in> set fs'. decodeImage e f \<noteq> None"
    using decodeAll_decodable [OF assms(4,6)] assms(1) by (simp add: fs' spec_reorder_set)
  from decodeAll_total [OF len this] obtain imgs' where
    d: "decodeAll e (zip fs' us') = Some imgs'" by blast
  have r: "map (scaleRatio W) imgs' = spec_reorder i j (map (scaleRatio W) imgs)"
    using assms(1) by (simp only: heights_of_files [OF len d] heights_of_files [OF assms(4,6)]
        fs' spec_reorder_map)
  have h: "map (scaledHeight W) imgs' = spec_reorder i j (map (scaledHeight W) imgs)"
    using assms(1) by (simp only: heights_of_files [OF len d] heights_of_files [OF assms(4,6)]
        fs' spec_reorder_map)
  show ?thesis
    using d r h by (simp add: mapHeights_fst)
qed


theorem reorder_keeps_scale_witness:
  "\<exists>imgs'. decodeAll browser (zip [pic 2, pic 3, pic 1] [3, 4, 5]) = Some imgs'
     \<and> map (scaledHeight 780) imgs' = [Fin 780, Fin 390, Fin 390]"
  using reorder_keeps_scale
    [of 0 "[pic 1, pic 2, pic 3]" 2 "[pic 2, pic 3, pic 1]" "[0, 1, 2]" "[3, 4, 5]" browser
        "[\<lparr>src = 0, naturalWidth = 800, naturalHeight = 400\<rparr>,
          \<lparr>src = 1, naturalWidth = 400, naturalHeight = 400\<rparr>,
          \<lparr>src = 2, naturalWidth = 1200, naturalHeight = 600\<rparr>]" 780]
  by (simp add: dragSort_example browser_def pic_def spec_reorder_def layout_eval Let_def)

section \<open>One run at a time\<close>

lemma addFilesIn_same: "addFilesIn s newFiles s = addFiles newFiles s"
  by (simp add: addFilesIn_def addFiles_def)

lemma handleDragSortIn_same: "handleDragSortIn s s = handleDragSort s"
  by (simp add: handleDragSortIn_def handleDragSort_def)

lemma mergeStartIn_same: "mergeStartIn e s s = mergeStart e s"
  by (simp add: mergeStartIn_def mergeStart_def)

lemma isLoading_addFilesIn: "isLoading (addFilesIn v fs s) = isLoading s"
  by (simp add: addFilesIn_def Let_def)

lemma isLoading_handleRemoveFile: "isLoading (handleRemoveFile i s) = isLoading s"
  by (simp add: handleRemoveFile_def)

lemma isLoading_handleDragSortIn:
  "handleDragSortIn v s = Some s' \<Longrightarrow> isLoading s' = isLoading s"
  by (auto simp: handleDragSortIn_def split: option.splits)

lemma isLoading_mergeStartIn_None:
  "mergeStartIn e v s = (s', None) \<Longrightarrow> \<not> isLoading s \<Longrightarrow> \<not> isLoading s'"
  by (auto simp: mergeStartIn_def Let_def loadImages_eq catchFinally_def split: if_splits)

lemma isLoading_mergeStartIn_Some:
  "mergeStartIn e v s = (s', Some r) \<Longrightarrow> isLoading s'"
  by (auto simp: mergeStartIn_def Let_def loadImages_eq split: if_splits)

lemma isLoading_mergeResume: "\<not> isLoading (mergeResume e r s)"
  by (simp add: mergeResume_def catchFinally_def Let_def split: option.splits)

text \<open>A click on a button that was rendered disabled changes nothing.\<close>

lemma click_disabled:
  "mergeButtonDisabled (view p) \<Longrightarrow> step e ClickMerge p = Some p"
  by (simp add: clickMergeButton_def)

text \<open>
  One action of a sequence in which every click comes after a render keeps \<open>oneRun\<close>,
  with the flag the rest of the sequence is read with.
\<close>

lemma step_oneRun:
  assumes "step e a p = Some q" and "clicksAfterRender fresh (a # as)" and "oneRun fresh p"
  shows "\<exists>fresh'. clicksAfterRender fresh' as \<and> oneRun fresh' q"
proof (cases a)
  case (AddFiles fs)
  then show ?thesis
    using assms by (auto simp: oneRun_def isLoading_addFilesIn intro!: exI [of _ fresh])
next
  case (RemoveFile i)
  then show ?thesis
    using assms
    by (auto simp: oneRun_def isLoading_handleRemoveFile split: if_splits intro!: exI [of _ fresh])
next
  case (DragStart i)
  then show ?thesis
    using assms by (auto simp: oneRun_def split: if_splits intro!: exI [of _ fresh])
next
  case (DragEnter i)
  then show ?thesis
    using assms by (auto simp: oneRun_def split: if_splits intro!: exI [of _ fresh])
next
  case DragEnd
  then show ?thesis
    using assms
    by (auto simp: oneRun_def dest: isLoading_handleDragSortIn split: option.splits
        intro!: exI [of _ fresh])
next
  case (SetOutputWidth w)
  then show ?thesis
    using assms by (auto simp: oneRun_def intro!: exI [of _ fresh])
next
  case (SetOutputFormat fmt)
  then show ?thesis
    using assms by (auto simp: oneRun_def intro!: exI [of _ fresh])
next
  case ClickMerge
  with assms(2) have fresh: fresh and rest: "clicksAfterRender False as" by simp_all
  show ?thesis
  proof (cases "mergeButtonDisabled (view p)")
    case True
    then have "q = p" using assms(1) ClickMerge by (simp add: clickMergeButton_def)
    then have "oneRun False q" using assms(3) by (simp add: oneRun_def)
    then show ?thesis using rest by blast
  next
    case False
    then have "\<not> isLoading (view p)" by (simp add: mergeButtonDisabled_def)
    then have idle: "\<not> isLoading (current p)" and none: "runs p = []"
      using assms(3) fresh by (auto simp: oneRun_def split: if_splits)
    obtain s' r where m: "mergeStartIn e (view p) (current p) = (s', r)"
      by (cases "mergeStartIn e (view p) (current p)")
    show ?thesis
    proof (cases r)
      case None
      then have "q = p\<lparr>current := s'\<rparr>"
        using assms(1) ClickMerge False m by (simp add: clickMergeButton_def)
      moreover have "\<not> isLoading s'"
        using m None idle isLoading_mergeStartIn_None by blast
      ultimately have "oneRun False q" using none by (simp add: oneRun_def)
      then show ?thesis using rest by blast
    next
      case (Some r')
      then have "q = p\<lparr>current := s', runs := runs p @ [r']\<rparr>"
        using assms(1) ClickMerge False m by (simp add: clickMergeButton_def)
      moreover have "isLoading s'"
        using m Some isLoading_mergeStartIn_Some by blast
      ultimately have "oneRun False q" using none by (simp add: oneRun_def)
      then show ?thesis using rest by blast
    qed
  qed
next
  case Render
  then have "q = p\<lparr>view := current p\<rparr>" using assms(1) by simp
  then have "oneRun True q" using assms(3) by (simp add: oneRun_def)
  moreover have "clicksAfterRender True as" using assms(2) Render by simp
  ultimately show ?thesis by blast
next
  case (Settle k)
  then have k: "k < length (runs p)"
    and q: "q = p\<lparr>current := mergeResume e (runs p ! k) (current p),
                  runs := take k (runs p) @ drop (Suc k) (runs p)\<rparr>"
    using assms(1) by (auto split: if_splits)
  have "length (runs p) \<le> 1" using assms(3) by (simp add: oneRun_def)
  with k have "k = 0" and "length (runs p) = 1" by simp_all
  then have rq: "runs q = []" using q by simp
  have cq: "current q = mergeResume e (runs p ! k) (current p)" using q by simp
  have "oneRun fresh q"
    by (simp add: oneRun_def rq cq isLoading_mergeResume)
  moreover have "clicksAfterRender fresh as" using assms(2) Settle by simp
  ultimately show ?thesis by blast
qed

lemma run_oneRun:
  "clicksAfterRender fresh as \<Longrightarrow> oneRun fresh p \<Longrightarrow> run e as p = Some p' \<Longrightarrow>
     oneRun False p'"
proof (induction as arbitrary: fresh p)
  case Nil
  then show ?case by (simp add: oneRun_def)
next
  case (Cons a as)
  from Cons.prems(3) obtain q where s: "step e a p = Some q" and r: "run e as q = Some p'"
    by (auto split: option.splits)
  from step_oneRun [OF s Cons.prems(1,2)] obtain fresh' where
    "clicksAfterRender fresh' as" and "oneRun fresh' q" by blast
  then show ?case using Cons.IH r by blast
qed

text \<open>
  Claim C5, as stated: a merge request issued while a run is Running is rejected by
  the controller itself. It is not: \<open>handleMerge\<close> never reads \<^verbatim>\<open>isLoading\<close>. Called
  on the state a first run waits in, it starts a second run, with an object URL of
  its own.
\<close>

theorem handleMerge_not_guarded_counterexample:
  "isLoading (fst (mergeStart browser (initialState\<lparr>files := [pic 1]\<rparr>)))
   \<and> snd (mergeStart browser (initialState\<lparr>files := [pic 1]\<rparr>))
       = Some \<lparr>pFiles = [pic 1], pOutputWidth = 780, pOutputFormat = jpeg, pSrcs = [0]\<rparr>
   \<and> snd (mergeStart browser (fst (mergeStart browser (initialState\<lparr>files := [pic 1]\<rparr>))))
       = Some \<lparr>pFiles = [pic 1], pOutputWidth = 780, pOutputFormat = jpeg, pSrcs = [1]\<rparr>"
  by (simp add: mergeStart_def initialState_def browser_def Let_def)

text \<open>
  The button does not keep a second run away either, when two clicks are dispatched
  on it before the page renders again: both find the button of the last render, which
  is not disabled, and both start a run.
\<close>

lemma two_clicks_two_runs:
  "map_option (\<lambda>p. (length (runs p), objectURLs (current p)))
     (run browser [AddFiles [pic 1], Render, ClickMerge, ClickMerge] initialPage)
   = Some (2, [0, 1])"
  by (simp add: clickMergeButton_def mergeButtonDisabled_def mergeStartIn_def addFilesIn_def
      startsWith_pic initialPage_def initialState_def browser_def Let_def)

text \<open>
  Claim C5, amended. \<open>handleMerge\<close> has no guard of its own; the only guard is the
  \<^verbatim>\<open>disabled\<close> attribute of the merge button, which holds the \<^verbatim>\<open>isLoading\<close> of the last
  render. If every click on the button comes after a render that is later than the
  click before it, then at most one run waits at any time and \<^verbatim>\<open>isLoading\<close> is set
  exactly while one does; and on a page that was rendered while \<^verbatim>\<open>isLoading\<close> was set
  a click on the button changes nothing and starts nothing.
\<close>

theorem one_run_at_a_time:
  assumes "clicksAfterRender True as" and "run e as initialPage = Some p"
  shows "length (runs p) \<le> 1 \<and> (isLoading (current p) \<longleftrightarrow> runs p \<noteq> [])
    \<and> (isLoading (view p) \<longrightarrow> step e ClickMerge p = Some p)"
proof -
  have "oneRun True initialPage"
    by (simp add: oneRun_def initialPage_def initialState_def)
  from run_oneRun [OF assms(1) this assms(2)]
  have "length (runs p) \<le> 1 \<and> (isLoading (current p) \<longleftrightarrow> runs p \<noteq> [])"
    by (simp add: oneRun_def)
  then show ?thesis
    using click_disabled [of p e] by (simp add: mergeButtonDisabled_def)
qed

theorem one_run_at_a_time_witness:
  "clicksAfterRender True [AddFiles [pic 1], Render, ClickMerge, Render, ClickMerge]
   \<and> (\<exists>p. run browser [AddFiles [pic 1], Render, ClickMerge, Render, ClickMerge] initialPage
          = Some p
        \<and> length (runs p) \<le> 1 \<and> isLoading (current p) \<and> isLoading (view p)
        \<and> step browser ClickMerge p = Some p)"
proof -
  let ?as = "[AddFiles [pic 1], Render, ClickMerge, Render, ClickMerge]"
  have c: "clicksAfterRender True ?as" by simp
  have "\<exists>p. run browser ?as initialPage = Some p \<and> isLoading (view p)
      \<and> isLoading (current p)"
    by (simp add: clickMergeButton_def mergeButtonDisabled_def mergeStartIn_def addFilesIn_def
        startsWith_pic initialPage_def initialState_def browser_def Let_def)
  then obtain p where r: "run browser ?as initialPage = Some p" and v: "isLoading (view p)"
    and l: "isLoading (current p)"
    by blast
  from one_run_at_a_time [OF c r] v
  have "length (runs p) \<le> 1 \<and> step browser ClickMerge p = Some p"
    by blast
  then show ?thesis using c r v l by blast
qed

section \<open>Object URLs\<close>

text \<open>
  Claim C10 says that every object URL a run creates for decoding is revoked when the
  run ends, on the failure paths as on the success path. The only
  \<^verbatim>\<open>URL.revokeObjectURL\<close> of \<open>handleMerge\<close> is in the drawing loop (line 125), which
  a run that fails to decode never reaches. With two files of which the second does
  not decode, both object URLs of the run are still live after it.
\<close>

theorem handleMerge_leaks_object_urls:
  "objectURLs (initialState\<lparr>files := [pic 1, pic 0]\<rparr>) = []
   \<and> objectURLs (handleMerge browser (initialState\<lparr>files := [pic 1, pic 0]\<rparr>)) = [0, 1]
   \<and> isLoading (handleMerge browser (initialState\<lparr>files := [pic 1, pic 0]\<rparr>)) = False
   \<and> error (handleMerge browser (initialState\<lparr>files := [pic 1, pic 0]\<rparr>)) = Some ProcessingFailed"
  by (simp add: handleMerge_def mergeStart_def mergeResume_def catchFinally_def
      initialState_def browser_def pic_def Let_def)


lemma performAll_Cons: "performAll (x # es) s = performAll es (perform x s)"
  by (simp add: performAll_def)

lemma objectURLs_perform:
  "objectURLs (perform x s) = filter (\<lambda>u. x \<noteq> RevokeObjectURL u) (objectURLs s)"
  by (cases x) (auto simp: removeAll_filter_not_eq intro: filter_cong)

lemma objectURLs_performAll:
  "objectURLs (performAll es s) = filter (\<lambda>u. RevokeObjectURL u \<notin> set es) (objectURLs s)"
proof (induction es arbitrary: s)
  case Nil
  then show ?case by (simp add: performAll_def)
next
  case (Cons x es)
  show ?case
    by (simp only: performAll_Cons Cons objectURLs_perform filter_filter)
      (auto intro: filter_cong)
qed

lemma revoked_drawImages:
  "RevokeObjectURL u \<in> set (drawImages W hs imgs k y) \<longleftrightarrow> u \<in> src ` set imgs"
  by (induction imgs arbitrary: k y) (auto simp: Let_def)

lemma revoked_composite:
  "RevokeObjectURL u \<in> set (composite W imgs) \<longleftrightarrow> u \<in> set (map src imgs)"
  by (simp add: composite_def split_beta Let_def revoked_drawImages)

lemma error_performAll: "error (performAll es s) = error s"
  by (induction es arbitrary: s) (simp_all add: performAll_def error_perform)

lemma filter_fresh:
  assumes "\<forall>u \<in> set old. u < n"
  shows "filter (\<lambda>u. u \<notin> set [n..<n + k]) (old @ [n..<n + k]) = old"
proof -
  have "filter (\<lambda>u. u \<notin> set [n..<n + k]) old = old"
    using assms by (intro filter_True) auto
  moreover have "filter (\<lambda>u. u \<notin> set [n..<n + k]) [n..<n + k] = []"
    by (intro filter_False) simp
  ultimately show ?thesis by simp
qed

text \<open>
  A run on a working set that is not empty, with a width in range, a 2d context and
  files that all decode: it sets \<^verbatim>\<open>isLoading\<close>, starts the load of every file under a
  fresh object URL, does the layout and the drawing of lines 106 to 126 on the decoded
  images, encodes, downloads, and clears \<^verbatim>\<open>isLoading\<close>.
\<close>

lemma effects_performAll: "effects (performAll es s) = effects s @ es"
  by (induction es arbitrary: s) (simp_all add: performAll_def effects_perform)

lemma handleMerge_success_effects:
  assumes "files s \<noteq> []" and "100 \<le> outputWidth s" and "outputWidth s \<le> 2000"
    and "getContext2d e" and "\<forall>f \<in> set (files s). decodeImage e f \<noteq> None"
  shows "\<exists>imgs.
    decodeAll e (zip (files s) [nextURL s..<nextURL s + length (files s)]) = Some imgs
    \<and> effects (handleMerge e s) =
        effects s
        @ SetIsLoading True
        # map (\<lambda>(f, u). LoadImage f u) (zip (files s) [nextURL s..<nextURL s + length (files s)])
        @ composite (outputWidth s) imgs
        @ [ToDataURL (''image/'' @ formatName (outputFormat s))
             (if outputFormat s = jpeg then Some (double (92 / 100)) else None),
           Download (''merged-image.'' @ formatName (outputFormat s)),
           SetIsLoading False]"
proof -
  define us where "us = [nextURL s..<nextURL s + length (files s)]"
  define s3 where "s3 = snd (loadImages (files s)
      (s\<lparr>isLoading := True, effects := effects s @ [SetIsLoading True], error := None\<rparr>))"
  have l: "loadImages (files s)
      (s\<lparr>isLoading := True, effects := effects s @ [SetIsLoading True], error := None\<rparr>)
    = (us, s3)"
    by (simp add: us_def s3_def loadImages_eq)
  have len: "length us = length (files s)" by (simp add: us_def)
  from decodeAll_total [OF len assms(5)] obtain imgs where
    d: "decodeAll e (zip (files s) us) = Some imgs" by blast
  have e3: "effects s3 =
    effects s @ SetIsLoading True # map (\<lambda>(f, u). LoadImage f u) (zip (files s) us)"
    by (simp add: s3_def loadImages_eq us_def)
  have "effects (handleMerge e s) =
    effects s3 @ composite (outputWidth s) imgs
      @ [ToDataURL (''image/'' @ formatName (outputFormat s))
             (if outputFormat s = jpeg then Some (double (92 / 100)) else None),
           Download (''merged-image.'' @ formatName (outputFormat s)),
           SetIsLoading False]"
    using assms(1-4) d
    by (simp add: handleMerge_def mergeStart_def Let_def l mergeResume_def effects_performAll)
  then show ?thesis using d by (simp add: e3 us_def)
qed

text \<open>
  On the path where every file decodes, the run revokes each object URL it created,
  right after drawing the image: the live URLs after the run are those before it.
\<close>

lemma handleMerge_success_releases:
  assumes "files s \<noteq> []" and "100 \<le> outputWidth s" and "outputWidth s \<le> 2000"
    and "getContext2d e" and "\<forall>f \<in> set (files s). decodeImage e f \<noteq> None"
    and "\<forall>u \<in> set (objectURLs s). u < nextURL s"
  shows "objectURLs (handleMerge e s) = objectURLs s \<and> error (handleMerge e s) = None
    \<and> isLoading (handleMerge e s) = False"
proof -
  define us where "us = [nextURL s..<nextURL s + length (files s)]"
  define s3 where "s3 = snd (loadImages (files s)
      (s\<lparr>isLoading := True, effects := effects s @ [SetIsLoading True], error := None\<rparr>))"
  have l: "loadImages (files s)
      (s\<lparr>isLoading := True, effects := effects s @ [SetIsLoading True], error := None\<rparr>)
    = (us, s3)"
    by (simp add: us_def s3_def loadImages_eq)
  have len: "length us = length (files s)" by (simp add: us_def)
  from decodeAll_total [OF len assms(5)] obtain imgs where
    d: "decodeAll e (zip (files s) us) = Some imgs" by blast
  have srcs: "map src imgs = us" using decodeAll_Some [OF len d] by simp
  have o3: "objectURLs s3 = objectURLs s @ us" and e3: "error s3 = None"
    by (simp_all add: s3_def loadImages_eq us_def)
  have r: "handleMerge e s =
    perform (SetIsLoading False)
     (perform (Download (''merged-image.'' @ formatName (outputFormat s)))
       (perform (ToDataURL (''image/'' @ formatName (outputFormat s))
           (if outputFormat s = jpeg then Some (double (92 / 100)) else None))
         (performAll (composite (outputWidth s) imgs) s3)))"
    using assms(1-4) d
    by (simp add: handleMerge_def mergeStart_def Let_def l mergeResume_def)
  have "objectURLs (handleMerge e s) = filter (\<lambda>u. u \<notin> set us) (objectURLs s @ us)"
    unfolding r by (simp add: objectURLs_performAll revoked_composite srcs o3)
  also have "\<dots> = objectURLs s"
    unfolding us_def using assms(6) by (rule filter_fresh)
  finally have "objectURLs (handleMerge e s) = objectURLs s" .
  moreover have "error (handleMerge e s) = None"
    unfolding r by (simp add: error_perform e3 error_performAll)
  ultimately show ?thesis unfolding r by simp
qed

end
